theory Spec2Isabelle
  imports Main
begin

section \<open>Python strings\<close>

text \<open>
  The program of \<^verbatim>\<open>_tools/genindex/genindex.py\<close> works on Python \<^verbatim>\<open>str\<close> values.
  A \<^typ>\<open>char\<close> stands here for the Unicode code point of the same number (0 to 255), so a
  \<^typ>\<open>string\<close> is a Python string over the Latin-1 range. On that range \<^verbatim>\<open>str.lower\<close> maps
  single characters to single characters and stays inside the range.
\<close>

definition nl :: char where "nl = CHR 0x0A"
definition cr :: char where "cr = CHR 0x0D"
definition dq :: char where "dq = CHR 0x22"
definition sq :: char where "sq = CHR 0x27"

text \<open>\<^verbatim>\<open>str.isspace\<close> of one character: TAB, LF, VT, FF, CR, the separators FS, GS, RS, US,
  the space, NEL (0x85) and the no-break space (0xA0).\<close>

definition isspace :: "char \<Rightarrow> bool" where
  "isspace c = (let n = (of_char c :: nat) in
     (9 \<le> n \<and> n \<le> 13) \<or> (28 \<le> n \<and> n \<le> 32) \<or> n = 133 \<or> n = 160)"

definition lstrip :: "string \<Rightarrow> string" where
  "lstrip s = dropWhile isspace s"

definition rstrip :: "string \<Rightarrow> string" where
  "rstrip s = rev (dropWhile isspace (rev s))"

definition strip :: "string \<Rightarrow> string" where
  "strip s = rstrip (lstrip s)"

text \<open>\<^verbatim>\<open>str.lower\<close> of one character: the ASCII capitals and the Latin-1 capitals
  (0xC0 to 0xDE without the multiplication sign 0xD7) move up by 32.\<close>

definition lower_char :: "char \<Rightarrow> char" where
  "lower_char c = (let n = (of_char c :: nat) in
     if (65 \<le> n \<and> n \<le> 90) \<or> (192 \<le> n \<and> n \<le> 222 \<and> n \<noteq> 215)
     then char_of (n + 32) else c)"

definition lower :: "string \<Rightarrow> string" where
  "lower s = map lower_char s"

fun startswith :: "string \<Rightarrow> string \<Rightarrow> bool" where
  "startswith [] s = True"
| "startswith (p # ps) [] = False"
| "startswith (p # ps) (c # cs) = (p = c \<and> startswith ps cs)"

text \<open>\<^verbatim>\<open>sep.join(xs)\<close>.\<close>

fun join :: "string \<Rightarrow> string list \<Rightarrow> string" where
  "join sep [] = []"
| "join sep [x] = x"
| "join sep (x # y # ys) = x @ sep @ join sep (y # ys)"

text \<open>\<^verbatim>\<open>s.replace(old, new)\<close> for a one-character \<^verbatim>\<open>old\<close>.\<close>

definition replace1 :: "char \<Rightarrow> string \<Rightarrow> string \<Rightarrow> string" where
  "replace1 old new s = concat (map (\<lambda>c. if c = old then new else [c]) s)"

text \<open>\<^verbatim>\<open>str.splitlines\<close>: a line ends at LF, CR, CR LF, VT, FF, FS, GS, RS or NEL; the
  line break is dropped, and a final line break opens no further line.\<close>

definition is_linebreak :: "char \<Rightarrow> bool" where
  "is_linebreak c = (let n = (of_char c :: nat) in
     (10 \<le> n \<and> n \<le> 13) \<or> (28 \<le> n \<and> n \<le> 30) \<or> n = 133)"

fun splitlines_from :: "string \<Rightarrow> string \<Rightarrow> string list" where
  "splitlines_from cur [] = (if cur = [] then [] else [cur])"
| "splitlines_from cur (c # cs) =
     (if c = cr then
        (case cs of
           [] \<Rightarrow> [cur]
         | d # ds \<Rightarrow> if d = nl then cur # splitlines_from [] ds
                     else cur # splitlines_from [] (d # ds))
      else if is_linebreak c then cur # splitlines_from [] cs
      else splitlines_from (cur @ [c]) cs)"

definition splitlines :: "string \<Rightarrow> string list" where
  "splitlines s = splitlines_from [] s"

section \<open>The regular expressions of module \<^verbatim>\<open>re\<close> that the program uses\<close>

text \<open>
  The pattern of \<^verbatim>\<open>parse_list_items\<close> is a sequence of literal characters and of greedy
  repetitions of one character class, three of them capturing. \<^verbatim>\<open>pattern.match\<close> anchors
  the match at the start of the string and not at its end. A greedy repetition takes the
  longest run of the class first and gives characters back one at a time while the rest
  of the pattern fails (backtracking); the first success decides the groups.
\<close>

datatype cls = NotChar char | Space | Dot

fun in_cls :: "cls \<Rightarrow> char \<Rightarrow> bool" where
  "in_cls (NotChar x) c = (c \<noteq> x)"
| "in_cls Space c = isspace c"
| "in_cls Dot c = (c \<noteq> nl)"

datatype quant = Star | Plus

fun min_count :: "quant \<Rightarrow> nat" where
  "min_count Star = 0"
| "min_count Plus = 1"

datatype node = Lit char | Many quant cls | Group quant cls

fun first_some :: "('a \<Rightarrow> 'b option) \<Rightarrow> 'a list \<Rightarrow> 'b option" where
  "first_some f [] = None"
| "first_some f (x # xs) = (case f x of Some y \<Rightarrow> Some y | None \<Rightarrow> first_some f xs)"

text \<open>The lengths a greedy repetition tries, longest first.\<close>

definition greedy_counts :: "quant \<Rightarrow> cls \<Rightarrow> string \<Rightarrow> nat list" where
  "greedy_counts q k s = rev [min_count q ..< Suc (length (takeWhile (in_cls k) s))]"

text \<open>\<^verbatim>\<open>re_match ns s\<close> is \<^verbatim>\<open>None\<close> when the pattern does not match at the start of
  \<^verbatim>\<open>s\<close>, and the captured groups in order otherwise.\<close>

fun re_match :: "node list \<Rightarrow> string \<Rightarrow> string list option" where
  "re_match [] s = Some []"
| "re_match (Lit c # ns) s =
     (case s of [] \<Rightarrow> None | x # xs \<Rightarrow> if x = c then re_match ns xs else None)"
| "re_match (Many q k # ns) s =
     first_some (\<lambda>n. re_match ns (drop n s)) (greedy_counts q k s)"
| "re_match (Group q k # ns) s =
     first_some (\<lambda>n. map_option (\<lambda>g. take n s # g) (re_match ns (drop n s)))
       (greedy_counts q k s)"

section \<open>The program\<close>

text \<open>Both failures of the program are a \<^verbatim>\<open>RuntimeError\<close> with a message; reading the input
  file can fail with an \<^verbatim>\<open>OSError\<close>.\<close>

datatype error = RuntimeError string | OSError string

type_synonym tool_entry = "string \<times> string \<times> string"

subsection \<open>\<^verbatim>\<open>extract_section\<close>\<close>

text \<open>The test of the first loop.\<close>

definition is_marker :: "string \<Rightarrow> bool" where
  "is_marker line = (lower (strip line) = ''## list of tools'')"

text \<open>The first loop: the index after the first line that is the heading.\<close>

fun find_start :: "nat \<Rightarrow> string list \<Rightarrow> nat option" where
  "find_start idx [] = None"
| "find_start idx (line # rest) =
     (if is_marker line then Some (idx + 1) else find_start (idx + 1) rest)"

text \<open>The second loop: lines are appended until one starts with \<^verbatim>\<open>#\<close>.\<close>

fun collect_section :: "string list \<Rightarrow> string list \<Rightarrow> string list" where
  "collect_section section [] = section"
| "collect_section section (line # rest) =
     (if startswith ''#'' line then section
      else collect_section (section @ [line]) rest)"

definition heading_missing :: string where
  "heading_missing =
     ''Could not find '' @ [sq] @ ''## List of tools'' @ [sq] @ '' heading in README.md''"

definition extract_section :: "string list \<Rightarrow> error + string list" where
  "extract_section lines =
     (case find_start 0 lines of
        None \<Rightarrow> Inl (RuntimeError heading_missing)
      | Some start \<Rightarrow> Inr (collect_section [] (drop start lines)))"

subsection \<open>\<^verbatim>\<open>parse_list_items\<close>\<close>

text \<open>The pattern \<^verbatim>\<open>\* \[([^\]]+)\]\(([^)]+)\)\s*-\s*(.+)\<close>.\<close>

definition pattern :: "node list" where
  "pattern =
     [Lit (CHR ''*''), Lit (CHR '' ''), Lit (CHR ''[''), Group Plus (NotChar (CHR '']'')),
      Lit (CHR '']''), Lit (CHR ''(''), Group Plus (NotChar (CHR '')'')), Lit (CHR '')''),
      Many Star Space, Lit (CHR ''-''), Many Star Space, Group Plus Dot]"

text \<open>\<^verbatim>\<open>pattern.match(s)\<close> followed by \<^verbatim>\<open>match.groups()\<close>: the pattern has three groups.\<close>

definition pattern_match :: "string \<Rightarrow> tool_entry option" where
  "pattern_match s =
     (case re_match pattern s of
        Some [title, url, desc] \<Rightarrow> Some (title, url, desc)
      | _ \<Rightarrow> None)"

text \<open>The block that the loop body and the code after the loop share: match the buffer,
  raise or append.\<close>

definition flush :: "tool_entry list \<Rightarrow> string \<Rightarrow> error + tool_entry list" where
  "flush items buffer =
     (case pattern_match (strip buffer) of
        None \<Rightarrow> Inl (RuntimeError (''Could not parse list item: '' @ buffer))
      | Some e \<Rightarrow> Inr (items @ [e]))"

fun parse_loop ::
  "tool_entry list \<Rightarrow> string \<Rightarrow> string list \<Rightarrow> error + (tool_entry list \<times> string)" where
  "parse_loop items buffer [] = Inr (items, buffer)"
| "parse_loop items buffer (line # rest) =
     (if startswith ''* '' (lstrip line) then
        (if buffer \<noteq> [] then
           (case flush items buffer of
              Inl e \<Rightarrow> Inl e
            | Inr items' \<Rightarrow> parse_loop items' (strip line) rest)
         else parse_loop items (strip line) rest)
      else if buffer \<noteq> [] then parse_loop items (buffer @ '' '' @ strip line) rest
      else parse_loop items buffer rest)"

definition parse_list_items :: "string list \<Rightarrow> error + tool_entry list" where
  "parse_list_items lines =
     (case parse_loop [] [] lines of
        Inl e \<Rightarrow> Inl e
      | Inr (items, buffer) \<Rightarrow> if buffer \<noteq> [] then flush items buffer else Inr items)"

subsection \<open>\<^verbatim>\<open>render_html\<close>\<close>

text \<open>\<^verbatim>\<open>html.escape(s, quote)\<close> of the standard library: five replacements in this order,
  the last two only when \<^verbatim>\<open>quote\<close> is true, which is its default.\<close>

definition html_escape :: "bool \<Rightarrow> string \<Rightarrow> string" where
  "html_escape quote s =
     (let s1 = replace1 (CHR ''&'') ''&amp;'' s;
          s2 = replace1 (CHR ''<'') ''&lt;'' s1;
          s3 = replace1 (CHR ''>'') ''&gt;'' s2
      in if quote then replace1 sq ''&#x27;'' (replace1 dq ''&quot;'' s3) else s3)"

definition header_lines :: "string list" where
  "header_lines =
     [''<!doctype html>'',
      ''<html>'',
      ''<head>'',
      ''  <meta charset='' @ [dq] @ ''utf-8'' @ [dq] @ ''>'',
      ''  <title>eliben browser-tools</title>'',
      ''</head>'',
      ''<body>'',
      ''  See <a href='' @ [dq] @ ''https://github.com/eliben/browser-tools'' @ [dq]
        @ ''>the GitHub repository</a> for details'',
      ''  <h1>List of tools</h1>'',
      ''  <ul>'']"

definition footer_lines :: "string list" where
  "footer_lines = [''  </ul>'', ''</body>'', ''</html>'']"

text \<open>The body of the loop over the entries: one \<^verbatim>\<open>li\<close> line.\<close>

fun render_li :: "tool_entry \<Rightarrow> string" where
  "render_li (title, url, desc) =
     (let li = ''    <li><a href='' @ [dq] @ html_escape True url @ [dq] @ ''>''
                 @ html_escape True title @ ''</a>'';
          li = (if desc \<noteq> [] then li @ '' - '' @ html_escape True desc else li)
      in li @ ''</li>'')"

definition render_html :: "tool_entry list \<Rightarrow> string" where
  "render_html tools =
     join [nl] (header_lines @ map render_li tools @ footer_lines) @ [nl]"

subsection \<open>\<^verbatim>\<open>main\<close>\<close>

text \<open>
  The files the driver touches: \<^verbatim>\<open>readme\<close> is what \<^verbatim>\<open>read_text\<close> of \<^verbatim>\<open>README.md\<close> returns
  or raises, \<^verbatim>\<open>index\<close> the text of \<^verbatim>\<open>index.html\<close> when the file exists, \<^verbatim>\<open>stdout\<close> the
  lines printed so far.
\<close>

record files =
  readme :: "error + string"
  index :: "string option"
  stdout :: "string list"

definition main :: "files \<Rightarrow> (error + unit) \<times> files" where
  "main fs =
     (case readme fs of
        Inl e \<Rightarrow> (Inl e, fs)
      | Inr text \<Rightarrow>
          (case extract_section (splitlines text) of
             Inl e \<Rightarrow> (Inl e, fs)
           | Inr section_lines \<Rightarrow>
               (case parse_list_items section_lines of
                  Inl e \<Rightarrow> (Inl e, fs)
                | Inr tools \<Rightarrow>
                    (Inr (),
                     fs\<lparr>index := Some (render_html tools),
                        stdout := stdout fs @ [''Wrote index.html'']\<rparr>))))"

text \<open>The exit status of the interpreter running the script: 1 when an exception leaves
  \<^verbatim>\<open>main\<close>, 0 otherwise.\<close>

definition exit_status :: "(error + unit) \<times> files \<Rightarrow> nat" where
  "exit_status r = (case fst r of Inl e \<Rightarrow> 1 | Inr u \<Rightarrow> 0)"

section \<open>Helper definitions for the statements\<close>

text \<open>The line of \<^verbatim>\<open>extract_section\<close>'s second loop that ends the section.\<close>

definition is_heading :: "string \<Rightarrow> bool" where
  "is_heading line = startswith ''#'' line"

text \<open>What the five replacements of \<^verbatim>\<open>html.escape\<close> with \<^verbatim>\<open>quote=True\<close> make of one
  character.\<close>

definition escape_char :: "char \<Rightarrow> string" where
  "escape_char c =
     (if c = CHR ''&'' then ''&amp;''
      else if c = CHR ''<'' then ''&lt;''
      else if c = CHR ''>'' then ''&gt;''
      else if c = dq then ''&quot;''
      else if c = sq then ''&#x27;''
      else [c])"

definition entities :: "string list" where
  "entities = [''&amp;'', ''&lt;'', ''&gt;'', ''&quot;'', ''&#x27;'']"

definition plain_char :: "char \<Rightarrow> bool" where
  "plain_char c =
     (c \<noteq> CHR ''&'' \<and> c \<noteq> CHR ''<'' \<and> c \<noteq> CHR ''>'' \<and> c \<noteq> dq \<and> c \<noteq> sq)"

text \<open>A piece of escaped text: an entity, or one character that is none of the five.\<close>

definition escaped_token :: "string \<Rightarrow> bool" where
  "escaped_token t = (List.member entities t \<or> (\<exists>c. t = [c] \<and> plain_char c))"

text \<open>The test of \<^verbatim>\<open>parse_list_items\<close> for a line that starts an item.\<close>

definition is_bullet :: "string \<Rightarrow> bool" where
  "is_bullet line = startswith ''* '' (lstrip line)"

text \<open>The text of the item that a bullet line and the lines after it up to the next
  bullet line make: the trimmed bullet line, then for each further line one space and
  the trimmed line.\<close>

definition item_text :: "string \<Rightarrow> string list \<Rightarrow> string" where
  "item_text b cs = strip b @ concat (map (\<lambda>c. '' '' @ strip c) cs)"

fun group_items :: "string list \<Rightarrow> string list" where
  "group_items [] = []"
| "group_items (l # ls) =
     (if is_bullet l
      then item_text l (takeWhile (\<lambda>c. \<not> is_bullet c) ls) # group_items ls
      else group_items ls)"

text \<open>Matching the items one after the other, stopping at the first that fails.\<close>

fun parse_items :: "string list \<Rightarrow> error + tool_entry list" where
  "parse_items [] = Inr []"
| "parse_items (b # bs) =
     (case pattern_match (strip b) of
        None \<Rightarrow> Inl (RuntimeError (''Could not parse list item: '' @ b))
      | Some e \<Rightarrow> (case parse_items bs of Inl err \<Rightarrow> Inl err | Inr es \<Rightarrow> Inr (e # es)))"

text \<open>The pattern matches at the start of the string.\<close>

definition re_accepts :: "node list \<Rightarrow> string \<Rightarrow> bool" where
  "re_accepts ns s = (re_match ns s \<noteq> None)"

text \<open>The strings that the pattern of \<^verbatim>\<open>parse_list_items\<close> matches, written out: the
  bullet and the bracketed title, the parenthesised URL, white space or none, a hyphen,
  white space or none, and one more character that is not a newline.\<close>

definition item_grammar :: "string \<Rightarrow> bool" where
  "item_grammar s =
     (\<exists>title url w1 w2 x rest.
        s = ''* ['' @ title @ '']('' @ url @ '')'' @ w1 @ ''-'' @ w2 @ x # rest \<and>
        title \<noteq> [] \<and> CHR '']'' \<notin> set title \<and> url \<noteq> [] \<and> CHR '')'' \<notin> set url \<and>
        list_all isspace w1 \<and> list_all isspace w2 \<and> x \<noteq> nl)"

text \<open>The grammar in the words of the specification: the title and the description are
  separated by the closing parenthesis, one space, a hyphen and one space.\<close>

definition spec_grammar :: "string \<Rightarrow> bool" where
  "spec_grammar s =
     (\<exists>title url desc.
        s = ''* ['' @ title @ '']('' @ url @ '') - '' @ desc \<and>
        title \<noteq> [] \<and> CHR '']'' \<notin> set title \<and> url \<noteq> [] \<and> CHR '')'' \<notin> set url)"

text \<open>What \<^verbatim>\<open>parse_list_items\<close> returns from the state that its loop ends in.\<close>

definition finish :: "error + (tool_entry list \<times> string) \<Rightarrow> error + tool_entry list" where
  "finish r =
     (case r of
        Inl e \<Rightarrow> Inl e
      | Inr (items, buffer) \<Rightarrow> if buffer \<noteq> [] then flush items buffer else Inr items)"

text \<open>Matching further items after the entries found so far.\<close>

definition append_parse :: "tool_entry list \<Rightarrow> string list \<Rightarrow> error + tool_entry list" where
  "append_parse items bs =
     (case parse_items bs of Inl e \<Rightarrow> Inl e | Inr es \<Rightarrow> Inr (items @ es))"

text \<open>The grouping in the words of the specification: a line starts an item when its
  trimmed text begins with the bullet marker, and the non-bullet, non-empty lines that
  follow it at once are joined to it; an empty line is not joined.\<close>

definition spec_is_bullet :: "string \<Rightarrow> bool" where
  "spec_is_bullet line = startswith ''* '' (strip line)"

fun spec_group_items :: "string list \<Rightarrow> string list" where
  "spec_group_items [] = []"
| "spec_group_items (l # ls) =
     (if spec_is_bullet l
      then (strip l @ concat (map (\<lambda>c. '' '' @ strip c)
              (takeWhile (\<lambda>c. \<not> spec_is_bullet c \<and> c \<noteq> []) ls))) # spec_group_items ls
      else spec_group_items ls)"

section \<open>Properties of \<^verbatim>\<open>extract_section\<close>\<close>

lemma collect_section_takeWhile:
  "collect_section acc ls = acc @ takeWhile (\<lambda>l. \<not> is_heading l) ls"
  by (induction ls arbitrary: acc) (auto simp: is_heading_def)

lemma find_start_none: "(\<forall>l\<in>set ls. \<not> is_marker l) \<Longrightarrow> find_start i ls = None"
  by (induction ls arbitrary: i) auto

lemma find_start_first:
  "(\<forall>l\<in>set pre. \<not> is_marker l) \<Longrightarrow> is_marker m \<Longrightarrow>
   find_start i (pre @ m # post) = Some (i + length pre + 1)"
  by (induction pre arbitrary: i) auto

lemma extract_section_at:
  assumes "\<forall>l\<in>set pre. \<not> is_marker l" and "is_marker m"
  shows "extract_section (pre @ m # post) = Inr (takeWhile (\<lambda>l. \<not> is_heading l) post)"
  using find_start_first [OF assms, of 0 post]
  by (simp add: extract_section_def collect_section_takeWhile)

lemma takeWhile_stop:
  "(\<forall>l\<in>set a. P l) \<Longrightarrow> \<not> P h \<Longrightarrow> takeWhile P (a @ h # b) = a"
  by (induction a) auto

lemma is_heading_iff: "is_heading l \<longleftrightarrow> (\<exists>r. l = CHR ''#'' # r)"
  by (cases l) (auto simp: is_heading_def)

text \<open>
  Claim C3. When some line of the document is the marker heading (its trimmed, lower-cased
  text is \<^verbatim>\<open>## list of tools\<close>), the document splits at the first such line into the
  lines before it, the heading and the lines after it, and \<^verbatim>\<open>extract_section\<close> returns the
  lines after it, in order, up to and without the first one that starts with \<^verbatim>\<open>#\<close>: all of
  them when none starts with \<^verbatim>\<open>#\<close>. The heading line is not part of the result, which may
  be empty.
\<close>

theorem extract_section_between:
  assumes "\<exists>l\<in>set lines. is_marker l"
  shows "\<exists>pre m post sec.
           lines = pre @ m # post \<and> (\<forall>l\<in>set pre. \<not> is_marker l) \<and> is_marker m \<and>
           extract_section lines = Inr sec \<and>
           sec = takeWhile (\<lambda>l. \<not> is_heading l) post \<and>
           ((\<forall>l\<in>set post. \<not> is_heading l) \<longrightarrow> sec = post) \<and>
           (\<forall>a h b. post = a @ h # b \<and> (\<forall>l\<in>set a. \<not> is_heading l) \<and> is_heading h
              \<longrightarrow> sec = a)"
proof -
  from assms obtain pre m post where
    d: "lines = pre @ m # post" "is_marker m" "\<forall>l\<in>set pre. \<not> is_marker l"
    using split_list_first_prop [of lines is_marker] by blast
  let ?sec = "takeWhile (\<lambda>l. \<not> is_heading l) post"
  have e: "extract_section lines = Inr ?sec"
    using extract_section_at [OF d(3) d(2)] d(1) by simp
  have all: "(\<forall>l\<in>set post. \<not> is_heading l) \<longrightarrow> ?sec = post"
    by (simp add: takeWhile_eq_all_conv)
  have stop: "\<forall>a h b. post = a @ h # b \<and> (\<forall>l\<in>set a. \<not> is_heading l) \<and> is_heading h
              \<longrightarrow> ?sec = a"
    by (auto simp: takeWhile_stop)
  from d e all stop show ?thesis by blast
qed

theorem extract_section_between_witness:
  "(\<exists>l\<in>set [''intro'', ''  ## LIST of Tools '', ''* a'', '''', ''# Next'', ''z'']. is_marker l) \<and>
   (\<exists>pre m post sec.
      [''intro'', ''  ## LIST of Tools '', ''* a'', '''', ''# Next'', ''z''] = pre @ m # post \<and>
      (\<forall>l\<in>set pre. \<not> is_marker l) \<and> is_marker m \<and>
      extract_section [''intro'', ''  ## LIST of Tools '', ''* a'', '''', ''# Next'', ''z'']
        = Inr sec \<and>
      sec = takeWhile (\<lambda>l. \<not> is_heading l) post \<and>
      ((\<forall>l\<in>set post. \<not> is_heading l) \<longrightarrow> sec = post) \<and>
      (\<forall>a h b. post = a @ h # b \<and> (\<forall>l\<in>set a. \<not> is_heading l) \<and> is_heading h
         \<longrightarrow> sec = a))"
proof -
  have h: "\<exists>l\<in>set [''intro'', ''  ## LIST of Tools '', ''* a'', '''', ''# Next'', ''z'']. is_marker l"
    by code_simp
  from h extract_section_between [OF h] show ?thesis by (rule conjI)
qed

text \<open>
  Claim C4. When no line of the document is the marker heading, \<^verbatim>\<open>extract_section\<close> fails,
  whatever else the document holds, with the \<^verbatim>\<open>RuntimeError\<close> whose message names the
  heading \<^verbatim>\<open>## List of tools\<close>.
\<close>

theorem extract_section_missing:
  assumes "\<forall>l\<in>set lines. \<not> is_marker l"
  shows "extract_section lines = Inl (RuntimeError heading_missing) \<and>
         (\<exists>a b. heading_missing = a @ ''## List of tools'' @ b)"
proof -
  have "heading_missing =
          (''Could not find '' @ [sq]) @ ''## List of tools'' @ ([sq] @ '' heading in README.md'')"
    by (simp add: heading_missing_def)
  then have "\<exists>a b. heading_missing = a @ ''## List of tools'' @ b" by blast
  then show ?thesis
    using find_start_none [OF assms, of 0] by (simp add: extract_section_def)
qed

theorem extract_section_missing_witness:
  "extract_section [''# Title'', ''text'', ''* [a](b) - c''] = Inl (RuntimeError heading_missing) \<and>
   (\<exists>a b. heading_missing = a @ ''## List of tools'' @ b)"
proof -
  have h: "\<forall>l\<in>set [''# Title'', ''text'', ''* [a](b) - c'']. \<not> is_marker l"
    by code_simp
  from extract_section_missing [OF h] show ?thesis .
qed

section \<open>Properties of \<^verbatim>\<open>render_html\<close>\<close>

lemma replace1_append: "replace1 c n (a @ b) = replace1 c n a @ replace1 c n b"
  by (simp add: replace1_def)

lemma html_escape_append: "html_escape q (a @ b) = html_escape q a @ html_escape q b"
  by (simp add: html_escape_def Let_def replace1_append)

lemma html_escape_single: "html_escape True [c] = escape_char c"
  by (simp add: html_escape_def replace1_def escape_char_def dq_def sq_def)

lemma html_escape_Nil: "html_escape q [] = []"
  by (simp add: html_escape_def replace1_def)

lemma html_escape_chars: "html_escape True s = concat (map escape_char s)"
proof (induction s)
  case Nil
  show ?case by (simp add: html_escape_Nil)
next
  case (Cons c s)
  have "html_escape True (c # s) = html_escape True [c] @ html_escape True s"
    using html_escape_append [of True "[c]" s] by simp
  then show ?case by (simp add: html_escape_single Cons.IH)
qed

lemma escape_char_no_markup:
  "CHR ''<'' \<notin> set (escape_char c) \<and> CHR ''>'' \<notin> set (escape_char c) \<and>
   dq \<notin> set (escape_char c) \<and> sq \<notin> set (escape_char c)"
  by (simp add: escape_char_def dq_def sq_def)

lemma escape_char_token: "escaped_token (escape_char c)"
  by (simp add: escaped_token_def escape_char_def entities_def plain_char_def dq_def sq_def)

lemma join_terminated: "xs \<noteq> [] \<Longrightarrow> join sep xs @ sep = concat (map (\<lambda>l. l @ sep) xs)"
  by (induction sep xs rule: join.induct) auto

lemma render_html_lines:
  "render_html tools =
     concat (map (\<lambda>l. l @ [nl]) header_lines) @
     concat (map (\<lambda>e. render_li e @ [nl]) tools) @
     concat (map (\<lambda>l. l @ [nl]) footer_lines)"
proof -
  have "header_lines @ map render_li tools @ footer_lines \<noteq> []"
    by (simp add: header_lines_def)
  from join_terminated [OF this, of "[nl]"] show ?thesis
    by (simp add: render_html_def comp_def)
qed

lemma render_li_shape:
  "render_li (title, url, desc) =
     ''    <li><a href='' @ [dq] @ html_escape True url @ [dq] @ ''>''
       @ html_escape True title @ ''</a>''
       @ (if desc = [] then [] else '' - '' @ html_escape True desc) @ ''</li>''"
  by simp

text \<open>
  Claim C5. \<^verbatim>\<open>render_html\<close> is a total function of the entries. Its result is the ten header
  lines (doctype, \<^verbatim>\<open>head\<close> with the UTF-8 charset and the title, the link to the repository,
  the \<^verbatim>\<open>h1\<close> heading, the opening \<^verbatim>\<open>ul\<close>), then one \<^verbatim>\<open>li\<close> line for each entry in the order
  of the input, then the three closing lines, each line followed by one newline. The
  \<^verbatim>\<open>li\<close> line of an entry is the hyperlink with the escaped URL as \<^verbatim>\<open>href\<close> and the escaped
  title as link text, followed by \<^verbatim>\<open> - \<close> and the escaped description exactly when the
  description is not empty. The output ends with \<^verbatim>\<open></html>\<close> and one newline, and for no
  entries it is the header followed at once by the closing lines.
\<close>

theorem render_html_document:
  "render_html tools =
     concat (map (\<lambda>l. l @ [nl]) header_lines) @
     concat (map (\<lambda>e. render_li e @ [nl]) tools) @
     concat (map (\<lambda>l. l @ [nl]) footer_lines) \<and>
   render_li (title, url, desc) =
     ''    <li><a href='' @ [dq] @ html_escape True url @ [dq] @ ''>''
       @ html_escape True title @ ''</a>''
       @ (if desc = [] then [] else '' - '' @ html_escape True desc) @ ''</li>'' \<and>
   (\<exists>body. render_html tools = body @ ''</html>'' @ [nl]) \<and>
   render_html [] =
     ''<!doctype html>'' @ [nl] @
     ''<html>'' @ [nl] @
     ''<head>'' @ [nl] @
     ''  <meta charset='' @ [dq] @ ''utf-8'' @ [dq] @ ''>'' @ [nl] @
     ''  <title>eliben browser-tools</title>'' @ [nl] @
     ''</head>'' @ [nl] @
     ''<body>'' @ [nl] @
     ''  See <a href='' @ [dq] @ ''https://github.com/eliben/browser-tools'' @ [dq]
       @ ''>the GitHub repository</a> for details'' @ [nl] @
     ''  <h1>List of tools</h1>'' @ [nl] @
     ''  <ul>'' @ [nl] @
     ''  </ul>'' @ [nl] @
     ''</body>'' @ [nl] @
     ''</html>'' @ [nl]"
proof -
  have lines: "render_html tools =
     concat (map (\<lambda>l. l @ [nl]) header_lines) @
     concat (map (\<lambda>e. render_li e @ [nl]) tools) @
     concat (map (\<lambda>l. l @ [nl]) footer_lines)"
    by (rule render_html_lines)
  have last: "\<exists>body. render_html tools = body @ ''</html>'' @ [nl]"
  proof (rule exI)
    show "render_html tools =
       (concat (map (\<lambda>l. l @ [nl]) header_lines) @
        concat (map (\<lambda>e. render_li e @ [nl]) tools) @
        ''  </ul>'' @ [nl] @ ''</body>'' @ [nl]) @ ''</html>'' @ [nl]"
      unfolding lines by (simp add: footer_lines_def)
  qed
  have empty: "render_html [] =
     ''<!doctype html>'' @ [nl] @
     ''<html>'' @ [nl] @
     ''<head>'' @ [nl] @
     ''  <meta charset='' @ [dq] @ ''utf-8'' @ [dq] @ ''>'' @ [nl] @
     ''  <title>eliben browser-tools</title>'' @ [nl] @
     ''</head>'' @ [nl] @
     ''<body>'' @ [nl] @
     ''  See <a href='' @ [dq] @ ''https://github.com/eliben/browser-tools'' @ [dq]
       @ ''>the GitHub repository</a> for details'' @ [nl] @
     ''  <h1>List of tools</h1>'' @ [nl] @
     ''  <ul>'' @ [nl] @
     ''  </ul>'' @ [nl] @
     ''</body>'' @ [nl] @
     ''</html>'' @ [nl]"
    by (simp add: render_html_def header_lines_def footer_lines_def)
  show ?thesis
    by (intro conjI) (rule lines, rule render_li_shape, rule last, rule empty)
qed

text \<open>
  Claim C6. In the \<^verbatim>\<open>li\<close> line of an entry the URL, the title and the description stand
  escaped character by character and are changed in no other way: each of
  \<^verbatim>\<open>&\<close>, \<^verbatim>\<open><\<close>, \<^verbatim>\<open>>\<close>, the double quote and the single quote becomes its entity and every
  other character stays as it is. So the escaped text holds no \<^verbatim>\<open><\<close>, \<^verbatim>\<open>>\<close> or quote at all,
  and it is a sequence of entities and of characters that are none of the five, so that
  each \<^verbatim>\<open>&\<close> in it starts an entity. The title \<^verbatim>\<open>R&D Tool\<close> becomes the link text
  \<^verbatim>\<open>R&amp;D Tool\<close>. The program escapes with \<^verbatim>\<open>quote=True\<close> in all three positions, so the
  single quote is escaped in the link text and the description as it is in the attribute.
\<close>

theorem render_li_escaped:
  "render_li (title, url, desc) =
     ''    <li><a href='' @ [dq] @ concat (map escape_char url) @ [dq] @ ''>''
       @ concat (map escape_char title) @ ''</a>''
       @ (if desc = [] then [] else '' - '' @ concat (map escape_char desc)) @ ''</li>'' \<and>
   html_escape True s = concat (map escape_char s) \<and>
   list_all escaped_token (map escape_char s) \<and>
   CHR ''<'' \<notin> set (html_escape True s) \<and> CHR ''>'' \<notin> set (html_escape True s) \<and>
   dq \<notin> set (html_escape True s) \<and> sq \<notin> set (html_escape True s) \<and>
   escape_char (CHR ''&'') = ''&amp;'' \<and> escape_char (CHR ''<'') = ''&lt;'' \<and>
   escape_char (CHR ''>'') = ''&gt;'' \<and> escape_char dq = ''&quot;'' \<and>
   escape_char sq = ''&#x27;'' \<and>
   (if plain_char c then escape_char c = [c] else List.member entities (escape_char c)) \<and>
   render_li (''R&D Tool'', url, desc) =
     ''    <li><a href='' @ [dq] @ html_escape True url @ [dq] @ ''>''
       @ ''R&amp;D Tool'' @ ''</a>''
       @ (if desc = [] then [] else '' - '' @ html_escape True desc) @ ''</li>''"
proof -
  have li: "render_li (title, url, desc) =
     ''    <li><a href='' @ [dq] @ concat (map escape_char url) @ [dq] @ ''>''
       @ concat (map escape_char title) @ ''</a>''
       @ (if desc = [] then [] else '' - '' @ concat (map escape_char desc)) @ ''</li>''"
    unfolding render_li_shape html_escape_chars by (rule refl)
  have toks: "list_all escaped_token (map escape_char s)"
    by (simp add: list_all_iff escape_char_token)
  have free: "CHR ''<'' \<notin> set (html_escape True s) \<and> CHR ''>'' \<notin> set (html_escape True s) \<and>
      dq \<notin> set (html_escape True s) \<and> sq \<notin> set (html_escape True s)"
    using escape_char_no_markup by (simp add: html_escape_chars)
  have vals: "escape_char (CHR ''&'') = ''&amp;'' \<and> escape_char (CHR ''<'') = ''&lt;'' \<and>
      escape_char (CHR ''>'') = ''&gt;'' \<and> escape_char dq = ''&quot;'' \<and>
      escape_char sq = ''&#x27;''"
    by (simp add: escape_char_def dq_def sq_def)
  have other: "if plain_char c then escape_char c = [c] else List.member entities (escape_char c)"
    by (simp add: escape_char_def plain_char_def entities_def dq_def sq_def)
  have "html_escape True ''R&D Tool'' = ''R&amp;D Tool''"
    by (simp add: html_escape_chars escape_char_def dq_def sq_def)
  then have ex: "render_li (''R&D Tool'', url, desc) =
     ''    <li><a href='' @ [dq] @ html_escape True url @ [dq] @ ''>''
       @ ''R&amp;D Tool'' @ ''</a>''
       @ (if desc = [] then [] else '' - '' @ html_escape True desc) @ ''</li>''"
    unfolding render_li_shape by simp
  from li html_escape_chars toks free vals other ex show ?thesis by simp
qed

section \<open>The pattern of \<^verbatim>\<open>parse_list_items\<close>\<close>

lemma first_some_None: "first_some f xs = None \<longleftrightarrow> (\<forall>x\<in>set xs. f x = None)"
  by (induction xs) (auto split: option.splits)

lemma first_some_SomeD: "first_some f xs = Some y \<Longrightarrow> \<exists>x\<in>set xs. f x = Some y"
  by (induction xs) (auto split: option.splits)

lemma set_greedy_counts:
  "set (greedy_counts q k s) = {n. min_count q \<le> n \<and> n \<le> length (takeWhile (in_cls k) s)}"
  by (auto simp: greedy_counts_def)

lemma prefix_count:
  "n \<le> length (takeWhile P s) \<longleftrightarrow> n \<le> length s \<and> (\<forall>c\<in>set (take n s). P c)"
proof
  assume n: "n \<le> length (takeWhile P s)"
  have le: "length (takeWhile P s) \<le> length s" by (rule length_takeWhile_le)
  have g: "\<And>xs ys :: 'a list. n \<le> length xs \<Longrightarrow> take n (xs @ ys) = take n xs" by simp
  have "take n s = take n (takeWhile P s)"
    using g [OF n, of "dropWhile P s"] unfolding takeWhile_dropWhile_id .
  then have "set (take n s) \<subseteq> set (takeWhile P s)" by (simp add: set_take_subset)
  then have "\<forall>c\<in>set (take n s). P c" by (auto dest: set_takeWhileD)
  with n le show "n \<le> length s \<and> (\<forall>c\<in>set (take n s). P c)" by simp
next
  assume a: "n \<le> length s \<and> (\<forall>c\<in>set (take n s). P c)"
  have "takeWhile P s = takeWhile P (take n s @ drop n s)" by simp
  also have "\<dots> = take n s @ takeWhile P (drop n s)"
    using a by (intro takeWhile_append2) simp
  finally have "length (takeWhile P s) = n + length (takeWhile P (drop n s))"
    using a by simp
  then show "n \<le> length (takeWhile P s)" by simp
qed

lemma count_split:
  "(\<exists>n. lo \<le> n \<and> n \<le> length (takeWhile P s) \<and> Q (take n s) (drop n s)) \<longleftrightarrow>
   (\<exists>w r. s = w @ r \<and> lo \<le> length w \<and> list_all P w \<and> Q w r)"
proof
  assume "\<exists>n. lo \<le> n \<and> n \<le> length (takeWhile P s) \<and> Q (take n s) (drop n s)"
  then obtain n where n: "lo \<le> n" "n \<le> length (takeWhile P s)" "Q (take n s) (drop n s)"
    by blast
  from n(2) have "n \<le> length s" "\<forall>c\<in>set (take n s). P c" by (simp_all add: prefix_count)
  then have "s = take n s @ drop n s \<and> lo \<le> length (take n s) \<and> list_all P (take n s)"
    using n(1) by (simp add: list_all_iff)
  with n(3) show "\<exists>w r. s = w @ r \<and> lo \<le> length w \<and> list_all P w \<and> Q w r" by blast
next
  assume "\<exists>w r. s = w @ r \<and> lo \<le> length w \<and> list_all P w \<and> Q w r"
  then obtain w r where w: "s = w @ r" "lo \<le> length w" "list_all P w" "Q w r" by blast
  have "length w \<le> length (takeWhile P s)"
    using w(1,3) by (simp add: prefix_count list_all_iff)
  moreover have "Q (take (length w) s) (drop (length w) s)" using w(1,4) by simp
  ultimately show "\<exists>n. lo \<le> n \<and> n \<le> length (takeWhile P s) \<and> Q (take n s) (drop n s)"
    using w(2) by blast
qed

lemma re_accepts_Nil: "re_accepts [] s"
  by (simp add: re_accepts_def)

lemma re_accepts_Lit: "re_accepts (Lit c # ns) s \<longleftrightarrow> (\<exists>r. s = c # r \<and> re_accepts ns r)"
  by (cases s) (auto simp: re_accepts_def)

lemma re_accepts_Many_count:
  "re_accepts (Many q k # ns) s \<longleftrightarrow>
     (\<exists>n. min_count q \<le> n \<and> n \<le> length (takeWhile (in_cls k) s) \<and> re_accepts ns (drop n s))"
  by (auto simp: re_accepts_def first_some_None set_greedy_counts)

lemma re_accepts_Group_count:
  "re_accepts (Group q k # ns) s \<longleftrightarrow>
     (\<exists>n. min_count q \<le> n \<and> n \<le> length (takeWhile (in_cls k) s) \<and> re_accepts ns (drop n s))"
  by (auto simp: re_accepts_def first_some_None set_greedy_counts)

lemma re_accepts_Many:
  "re_accepts (Many q k # ns) s \<longleftrightarrow>
     (\<exists>w r. s = w @ r \<and> min_count q \<le> length w \<and> list_all (in_cls k) w \<and> re_accepts ns r)"
  unfolding re_accepts_Many_count
  by (rule count_split [where Q = "\<lambda>w r. re_accepts ns r"])

lemma re_accepts_Group:
  "re_accepts (Group q k # ns) s \<longleftrightarrow>
     (\<exists>w r. s = w @ r \<and> min_count q \<le> length w \<and> list_all (in_cls k) w \<and> re_accepts ns r)"
  unfolding re_accepts_Group_count
  by (rule count_split [where Q = "\<lambda>w r. re_accepts ns r"])


lemma re_accepts_LitI: "re_accepts ns r \<Longrightarrow> re_accepts (Lit c # ns) (c # r)"
  by (simp add: re_accepts_Lit)

lemma re_accepts_ManyI:
  "min_count q \<le> length w \<Longrightarrow> list_all (in_cls k) w \<Longrightarrow> re_accepts ns r \<Longrightarrow>
   re_accepts (Many q k # ns) (w @ r)"
  unfolding re_accepts_Many by blast

lemma re_accepts_GroupI:
  "min_count q \<le> length w \<Longrightarrow> list_all (in_cls k) w \<Longrightarrow> re_accepts ns r \<Longrightarrow>
   re_accepts (Group q k # ns) (w @ r)"
  unfolding re_accepts_Group by blast

lemma item_grammar_accepts:
  assumes "item_grammar s"
  shows "re_accepts pattern s"
proof -
  from assms obtain t u w1 w2 x r where
    s: "s = ''* ['' @ t @ '']('' @ u @ '')'' @ w1 @ ''-'' @ w2 @ x # r" and
    c: "t \<noteq> []" "CHR '']'' \<notin> set t" "u \<noteq> []" "CHR '')'' \<notin> set u"
       "list_all isspace w1" "list_all isspace w2" "x \<noteq> nl"
    unfolding item_grammar_def by blast
  have t: "min_count Plus \<le> length t" "list_all (in_cls (NotChar (CHR '']''))) t"
    using c(1,2) by (auto simp: list_all_iff Suc_le_eq)
  have u: "min_count Plus \<le> length u" "list_all (in_cls (NotChar (CHR '')''))) u"
    using c(3,4) by (auto simp: list_all_iff Suc_le_eq)
  have w1: "min_count Star \<le> length w1" "list_all (in_cls Space) w1"
    using c(5) by (auto simp: list_all_iff)
  have w2: "min_count Star \<le> length w2" "list_all (in_cls Space) w2"
    using c(6) by (auto simp: list_all_iff)
  have x: "min_count Plus \<le> length [x]" "list_all (in_cls Dot) [x]"
    using c(7) by auto
  have "re_accepts pattern
          (CHR ''*'' # CHR '' '' # CHR ''['' # (t @ (CHR '']'' # CHR ''('' # (u @ (CHR '')'' #
             (w1 @ (CHR ''-'' # (w2 @ ([x] @ r)))))))))"
    unfolding pattern_def
    by (intro re_accepts_LitI re_accepts_ManyI re_accepts_GroupI re_accepts_Nil t u w1 w2 x)
  then show ?thesis by (simp add: s)
qed

lemma list_all_NotChar: "list_all (in_cls (NotChar x)) w \<Longrightarrow> x \<notin> set w"
  by (induction w) auto

lemma accepts_item_grammar:
  assumes "re_accepts pattern s"
  shows "item_grammar s"
proof -
  from assms obtain r3 where s3: "s = CHR ''*'' # CHR '' '' # CHR ''['' # r3" and
    a3: "re_accepts [Group Plus (NotChar (CHR '']'')),
      Lit (CHR '']''), Lit (CHR ''(''), Group Plus (NotChar (CHR '')'')), Lit (CHR '')''),
      Many Star Space, Lit (CHR ''-''), Many Star Space, Group Plus Dot] r3"
    unfolding pattern_def re_accepts_Lit by blast
  from a3 obtain t r4 where t: "r3 = t @ r4" "min_count Plus \<le> length t"
      "list_all (in_cls (NotChar (CHR '']''))) t" and
    a4: "re_accepts [Lit (CHR '']''), Lit (CHR ''(''), Group Plus (NotChar (CHR '')'')),
      Lit (CHR '')''), Many Star Space, Lit (CHR ''-''), Many Star Space, Group Plus Dot] r4"
    unfolding re_accepts_Group by blast
  from a4 obtain r6 where s6: "r4 = CHR '']'' # CHR ''('' # r6" and
    a6: "re_accepts [Group Plus (NotChar (CHR '')'')),
      Lit (CHR '')''), Many Star Space, Lit (CHR ''-''), Many Star Space, Group Plus Dot] r6"
    unfolding re_accepts_Lit by blast
  from a6 obtain u r7 where u: "r6 = u @ r7" "min_count Plus \<le> length u"
      "list_all (in_cls (NotChar (CHR '')''))) u" and
    a7: "re_accepts [Lit (CHR '')''), Many Star Space, Lit (CHR ''-''), Many Star Space,
      Group Plus Dot] r7"
    unfolding re_accepts_Group by blast
  from a7 obtain r8 where s8: "r7 = CHR '')'' # r8" and
    a8: "re_accepts [Many Star Space, Lit (CHR ''-''), Many Star Space, Group Plus Dot] r8"
    unfolding re_accepts_Lit by blast
  from a8 obtain w1 r9 where w1: "r8 = w1 @ r9" "list_all (in_cls Space) w1" and
    a9: "re_accepts [Lit (CHR ''-''), Many Star Space, Group Plus Dot] r9"
    unfolding re_accepts_Many by blast
  from a9 obtain r10 where s10: "r9 = CHR ''-'' # r10" and
    a10: "re_accepts [Many Star Space, Group Plus Dot] r10"
    unfolding re_accepts_Lit by blast
  from a10 obtain w2 r11 where w2: "r10 = w2 @ r11" "list_all (in_cls Space) w2" and
    a11: "re_accepts [Group Plus Dot] r11"
    unfolding re_accepts_Many by blast
  from a11 obtain d r where d: "r11 = d @ r" "min_count Plus \<le> length d"
      "list_all (in_cls Dot) d"
    unfolding re_accepts_Group by blast
  from d(2) obtain x d' where dx: "d = x # d'" by (cases d) auto
  with d(3) have x: "x \<noteq> nl" by simp
  have eq: "s = ''* ['' @ t @ '']('' @ u @ '')'' @ w1 @ ''-'' @ w2 @ x # (d' @ r)"
    by (simp add: s3 t(1) s6 u(1) s8 w1(1) s10 w2(1) d(1) dx)
  have c1: "t \<noteq> []" using t(2) by auto
  have c2: "CHR '']'' \<notin> set t" using t(3) by (rule list_all_NotChar)
  have c3: "u \<noteq> []" using u(2) by auto
  have c4: "CHR '')'' \<notin> set u" using u(3) by (rule list_all_NotChar)
  have c5: "list_all isspace w1" using w1(2) by (simp add: list_all_iff)
  have c6: "list_all isspace w2" using w2(2) by (simp add: list_all_iff)
  show ?thesis
    unfolding item_grammar_def
    by (rule exI [where x = t], rule exI [where x = u], rule exI [where x = w1],
        rule exI [where x = w2], rule exI [where x = x], rule exI [where x = "d' @ r"])
       (intro conjI, rule eq, rule c1, rule c2, rule c3, rule c4, rule c5, rule c6, rule x)
qed

lemma pattern_accepts_iff: "re_accepts pattern s \<longleftrightarrow> item_grammar s"
  using item_grammar_accepts accepts_item_grammar by blast

lemma re_match_LitD:
  "re_match (Lit c # ns) s = Some g \<Longrightarrow> \<exists>r. s = c # r \<and> re_match ns r = Some g"
  by (cases s) (auto split: if_splits)

lemma re_match_ManyD:
  "re_match (Many q k # ns) s = Some g \<Longrightarrow> \<exists>n. re_match ns (drop n s) = Some g"
  by (auto dest: first_some_SomeD)

lemma re_match_GroupD:
  assumes "re_match (Group q k # ns) s = Some g"
  shows "\<exists>n g'. min_count q \<le> n \<and> n \<le> length s \<and> g = take n s # g' \<and>
           re_match ns (drop n s) = Some g'"
proof -
  from assms obtain n where n: "n \<in> set (greedy_counts q k s)"
      "map_option (\<lambda>g. take n s # g) (re_match ns (drop n s)) = Some g"
    by (auto dest: first_some_SomeD)
  from n(1) have "min_count q \<le> n" "n \<le> length (takeWhile (in_cls k) s)"
    by (simp_all add: set_greedy_counts)
  moreover have "length (takeWhile (in_cls k) s) \<le> length s" by (rule length_takeWhile_le)
  ultimately show ?thesis using n(2) by auto
qed

lemma take_nonempty: "min_count Plus \<le> n \<Longrightarrow> n \<le> length s \<Longrightarrow> take n s \<noteq> []"
  by (cases s) auto

lemma pattern_groups:
  assumes "re_match pattern s = Some g"
  shows "\<exists>t u d. g = [t, u, d] \<and> t \<noteq> [] \<and> u \<noteq> [] \<and> d \<noteq> []"
proof -
  from assms obtain r3 where
    a3: "re_match [Group Plus (NotChar (CHR '']'')),
      Lit (CHR '']''), Lit (CHR ''(''), Group Plus (NotChar (CHR '')'')), Lit (CHR '')''),
      Many Star Space, Lit (CHR ''-''), Many Star Space, Group Plus Dot] r3 = Some g"
    unfolding pattern_def by (blast dest: re_match_LitD)
  from re_match_GroupD [OF a3] obtain n1 g1 where
    t: "min_count Plus \<le> n1" "n1 \<le> length r3" "g = take n1 r3 # g1" and
    a4: "re_match [Lit (CHR '']''), Lit (CHR ''(''), Group Plus (NotChar (CHR '')'')),
      Lit (CHR '')''), Many Star Space, Lit (CHR ''-''), Many Star Space, Group Plus Dot]
      (drop n1 r3) = Some g1"
    by blast
  from a4 obtain r6 where
    a6: "re_match [Group Plus (NotChar (CHR '')'')),
      Lit (CHR '')''), Many Star Space, Lit (CHR ''-''), Many Star Space, Group Plus Dot] r6
      = Some g1"
    by (blast dest: re_match_LitD)
  from re_match_GroupD [OF a6] obtain n2 g2 where
    u: "min_count Plus \<le> n2" "n2 \<le> length r6" "g1 = take n2 r6 # g2" and
    a7: "re_match [Lit (CHR '')''), Many Star Space, Lit (CHR ''-''), Many Star Space,
      Group Plus Dot] (drop n2 r6) = Some g2"
    by blast
  from a7 obtain r8 where
    a8: "re_match [Many Star Space, Lit (CHR ''-''), Many Star Space, Group Plus Dot] r8
      = Some g2"
    by (blast dest: re_match_LitD)
  from re_match_ManyD [OF a8] obtain r9 where
    a9: "re_match [Lit (CHR ''-''), Many Star Space, Group Plus Dot] r9 = Some g2"
    by blast
  from a9 obtain r10 where
    a10: "re_match [Many Star Space, Group Plus Dot] r10 = Some g2"
    by (blast dest: re_match_LitD)
  from re_match_ManyD [OF a10] obtain r11 where
    a11: "re_match [Group Plus Dot] r11 = Some g2"
    by blast
  from re_match_GroupD [OF a11] obtain n3 g3 where
    d: "min_count Plus \<le> n3" "n3 \<le> length r11" "g2 = take n3 r11 # g3" and
    a12: "re_match [] (drop n3 r11) = Some g3"
    by blast
  from a12 have "g3 = []" by simp
  with t(3) u(3) d(3) have "g = [take n1 r3, take n2 r6, take n3 r11]" by simp
  moreover have "take n1 r3 \<noteq> []" "take n2 r6 \<noteq> []" "take n3 r11 \<noteq> []"
    by (rule take_nonempty [OF t(1) t(2)], rule take_nonempty [OF u(1) u(2)],
        rule take_nonempty [OF d(1) d(2)])
  ultimately show ?thesis by blast
qed

lemma pattern_match_Some_iff:
  "pattern_match s = Some (t, u, d) \<longleftrightarrow> re_match pattern s = Some [t, u, d]"
proof (cases "re_match pattern s")
  case None
  then show ?thesis by (simp add: pattern_match_def)
next
  case (Some g)
  from pattern_groups [OF this] obtain t' u' d' where "g = [t', u', d']" by blast
  with Some show ?thesis by (simp add: pattern_match_def)
qed

lemma pattern_match_None_iff: "pattern_match s = None \<longleftrightarrow> \<not> item_grammar s"
proof (cases "re_match pattern s")
  case None
  then show ?thesis
    using pattern_accepts_iff [of s] by (simp add: pattern_match_def re_accepts_def)
next
  case (Some g)
  from pattern_groups [OF this] obtain t' u' d' where "g = [t', u', d']" by blast
  with Some show ?thesis
    using pattern_accepts_iff [of s] by (simp add: pattern_match_def re_accepts_def)
qed

lemma pattern_match_nonempty:
  "pattern_match s = Some (t, u, d) \<Longrightarrow> t \<noteq> [] \<and> u \<noteq> [] \<and> d \<noteq> []"
  using pattern_groups [of s "[t, u, d]"] by (simp add: pattern_match_Some_iff)

section \<open>The loop of \<^verbatim>\<open>parse_list_items\<close>\<close>

lemma lstrip_strip: "lstrip s \<noteq> [] \<Longrightarrow> strip s \<noteq> []"
  unfolding strip_def rstrip_def lstrip_def
  by (metis (no_types, lifting) dropWhile_eq_Nil_conv hd_dropWhile list.set_sel(1) rev_is_Nil_conv set_rev dropWhile_idem)

lemma is_bullet_strip: "is_bullet l \<Longrightarrow> strip l \<noteq> []"
  by (rule lstrip_strip) (auto simp: is_bullet_def)


lemma append_parse_Cons:
  "append_parse items (b # bs) =
     (case pattern_match (strip b) of
        None \<Rightarrow> Inl (RuntimeError (''Could not parse list item: '' @ b))
      | Some e \<Rightarrow> append_parse (items @ [e]) bs)"
  by (simp add: append_parse_def split: option.splits sum.splits)

lemma append_parse_Nil: "append_parse items [] = Inr items"
  by (simp add: append_parse_def)

lemma flush_append_parse: "flush items b = append_parse items [b]"
  by (simp add: flush_def append_parse_Cons append_parse_Nil split: option.splits)

lemma parse_loop_group:
  "finish (parse_loop items buf ls) =
     (if buf \<noteq> []
      then append_parse items
             ((buf @ concat (map (\<lambda>c. '' '' @ strip c) (takeWhile (\<lambda>c. \<not> is_bullet c) ls)))
              # group_items ls)
      else append_parse items (group_items ls))"
proof (induction ls arbitrary: items buf)
  case Nil
  show ?case by (simp add: finish_def flush_append_parse append_parse_Nil)
next
  case (Cons l ls)
  show ?case
  proof (cases "is_bullet l")
    case True
    then have sl: "strip l \<noteq> []" by (rule is_bullet_strip)
    from True have sw: "startswith ''* '' (lstrip l)" by (simp add: is_bullet_def)
    show ?thesis
    proof (cases "buf = []")
      case True
      with sw sl \<open>is_bullet l\<close> show ?thesis
        using Cons.IH [of items "strip l"] by (simp add: item_text_def)
    next
      case False
      show ?thesis
      proof (cases "pattern_match (strip buf)")
        case None
        with False sw \<open>is_bullet l\<close> show ?thesis
          by (simp add: finish_def flush_def append_parse_Cons)
      next
        case (Some e)
        with False sw sl \<open>is_bullet l\<close> show ?thesis
          using Cons.IH [of "items @ [e]" "strip l"]
          by (simp add: flush_def append_parse_Cons item_text_def)
      qed
    qed
  next
    case False
    then have sw: "\<not> startswith ''* '' (lstrip l)" by (simp add: is_bullet_def)
    show ?thesis
    proof (cases "buf = []")
      case True
      with sw False show ?thesis using Cons.IH [of items "[]"] by simp
    next
      case nb: False
      with sw False show ?thesis
        using Cons.IH [of items "buf @ '' '' @ strip l"] by simp
    qed
  qed
qed

lemma parse_list_items_group: "parse_list_items lines = parse_items (group_items lines)"
proof -
  have "parse_list_items lines = finish (parse_loop [] [] lines)"
    by (simp add: parse_list_items_def finish_def)
  also have "\<dots> = append_parse [] (group_items lines)"
    by (simp add: parse_loop_group)
  also have "\<dots> = parse_items (group_items lines)"
    by (simp add: append_parse_def split: sum.splits)
  finally show ?thesis .
qed

section \<open>Properties of \<^verbatim>\<open>parse_list_items\<close>\<close>

lemma parse_items_Inr_iff:
  "(\<exists>es. parse_items bs = Inr es) \<longleftrightarrow> list_all (\<lambda>b. item_grammar (strip b)) bs"
proof (induction bs)
  case Nil
  show ?case by simp
next
  case (Cons b bs)
  show ?case
  proof (cases "pattern_match (strip b)")
    case None
    then show ?thesis using pattern_match_None_iff [of "strip b"] by simp
  next
    case (Some e)
    then have "item_grammar (strip b)" using pattern_match_None_iff [of "strip b"] by simp
    with Some Cons.IH show ?thesis by (auto split: sum.splits)
  qed
qed

lemma parse_items_first_fail:
  "list_all (\<lambda>x. item_grammar (strip x)) pre \<Longrightarrow> \<not> item_grammar (strip b) \<Longrightarrow>
   parse_items (pre @ b # post) = Inl (RuntimeError (''Could not parse list item: '' @ b))"
proof (induction pre)
  case Nil
  then show ?case using pattern_match_None_iff [of "strip b"] by simp
next
  case (Cons p pre)
  then have "pattern_match (strip p) \<noteq> None"
    using pattern_match_None_iff [of "strip p"] by simp
  then obtain e where "pattern_match (strip p) = Some e" by blast
  with Cons show ?case by simp
qed

lemma parse_items_Inr_map:
  "parse_items bs = Inr es \<Longrightarrow> map Some es = map (\<lambda>b. pattern_match (strip b)) bs"
proof (induction bs arbitrary: es)
  case Nil
  then show ?case by simp
next
  case (Cons b bs)
  then show ?case by (auto split: option.splits sum.splits)
qed

lemma group_items_skip:
  "list_all (\<lambda>l. \<not> is_bullet l) pre \<Longrightarrow> group_items (pre @ rest) = group_items rest"
  by (induction pre) auto

lemma group_items_none: "list_all (\<lambda>l. \<not> is_bullet l) pre \<Longrightarrow> group_items pre = []"
  using group_items_skip [of pre "[]"] by simp

lemma takeWhile_run:
  "list_all P cs \<Longrightarrow> (case rest of [] \<Rightarrow> True | r # rs \<Rightarrow> \<not> P r) \<Longrightarrow>
   takeWhile P (cs @ rest) = cs"
  by (induction cs) (auto split: list.splits)

lemma group_items_block:
  assumes "is_bullet b" and "list_all (\<lambda>c. \<not> is_bullet c) cs"
    and "case rest of [] \<Rightarrow> True | r # rs \<Rightarrow> is_bullet r"
  shows "group_items (b # cs @ rest) =
           (strip b @ concat (map (\<lambda>c. '' '' @ strip c) cs)) # group_items rest"
proof -
  have "takeWhile (\<lambda>c. \<not> is_bullet c) (cs @ rest) = cs"
    using assms(2,3) by (intro takeWhile_run) (auto split: list.splits)
  then show ?thesis
    using assms(1) group_items_skip [OF assms(2), of rest] by (simp add: item_text_def)
qed

lemma strip_last: "strip s \<noteq> [] \<Longrightarrow> \<not> isspace (last (strip s))"
proof -
  assume a: "strip s \<noteq> []"
  let ?r = "dropWhile isspace (rev (lstrip s))"
  have s: "strip s = rev ?r" by (simp add: strip_def rstrip_def)
  with a have ne: "?r \<noteq> []" by simp
  then have "\<not> isspace (hd ?r)" by (rule hd_dropWhile)
  moreover have "last (strip s) = hd ?r" using ne by (simp add: s last_rev)
  ultimately show ?thesis by simp
qed

lemma isspace_space: "isspace (CHR '' '')"
  by (simp add: isspace_def)

lemma isspace_nl: "isspace nl"
  by (simp add: isspace_def nl_def)

lemma spec_grammar_strip:
  assumes "spec_grammar (strip b)"
  shows "item_grammar (strip b)"
proof -
  from assms obtain t u d where
    eq: "strip b = ''* ['' @ t @ '']('' @ u @ '') - '' @ d" and
    c: "t \<noteq> []" "CHR '']'' \<notin> set t" "u \<noteq> []" "CHR '')'' \<notin> set u"
    unfolding spec_grammar_def by blast
  have ne: "strip b \<noteq> []" by (simp add: eq)
  have nsp: "\<not> isspace (last (strip b))" using ne by (rule strip_last)
  have d: "d \<noteq> []"
  proof
    assume "d = []"
    then have "last (strip b) = CHR '' ''" by (simp add: eq)
    with nsp isspace_space show False by simp
  qed
  then have "last (strip b) = last d" by (simp add: eq)
  with nsp have "\<not> isspace (last d)" by simp
  moreover have "last d \<in> set d" using d by simp
  ultimately have "\<exists>y\<in>set d. \<not> isspace y" by blast
  then have "dropWhile isspace d \<noteq> []" by (simp add: dropWhile_eq_Nil_conv)
  then obtain x r where xr: "dropWhile isspace d = x # r" by (cases "dropWhile isspace d") auto
  have "\<not> isspace (hd (dropWhile isspace d))"
    using \<open>dropWhile isspace d \<noteq> []\<close> by (rule hd_dropWhile)
  then have x: "\<not> isspace x" by (simp add: xr)
  with isspace_nl have xnl: "x \<noteq> nl" by auto
  have "d = takeWhile isspace d @ dropWhile isspace d" by simp
  then have dd: "d = takeWhile isspace d @ x # r" by (simp only: xr)
  have w1: "list_all isspace '' ''" by (simp add: isspace_space)
  have w2: "list_all isspace ('' '' @ takeWhile isspace d)"
    by (auto simp: list_all_iff isspace_space dest: set_takeWhileD)
  have e: "strip b = ''* ['' @ t @ '']('' @ u @ '')'' @ '' '' @ ''-''
             @ ('' '' @ takeWhile isspace d) @ x # r"
    using dd by (simp add: eq)
  show ?thesis
    unfolding item_grammar_def
    by (rule exI [where x = t], rule exI [where x = u], rule exI [where x = "'' ''"],
        rule exI [where x = "'' '' @ takeWhile isspace d"], rule exI [where x = x],
        rule exI [where x = r])
       (intro conjI, rule e, rule c(1), rule c(2), rule c(3), rule c(4), rule w1, rule w2,
        rule xnl)
qed

text \<open>
  Claim C1, as stated: an item is accepted exactly when its trimmed text has the title
  in brackets, the URL in parentheses and then the separator of one space, a hyphen and
  one space. The program accepts the item \<^verbatim>\<open>* [a](b)-c\<close>, which has no such separator.
\<close>

theorem parse_list_items_separator_counterexample:
  "parse_list_items [''* [a](b)-c''] = Inr [(''a'', ''b'', ''c'')] \<and>
   \<not> spec_grammar (strip ''* [a](b)-c'')"
proof
  show "parse_list_items [''* [a](b)-c''] = Inr [(''a'', ''b'', ''c'')]"
    by code_simp
  have s: "strip ''* [a](b)-c'' = ''* [a](b)-c''" by code_simp
  show "\<not> spec_grammar (strip ''* [a](b)-c'')"
  proof
    assume "spec_grammar (strip ''* [a](b)-c'')"
    then obtain t u d where "''* [a](b)-c'' = ''* ['' @ t @ '']('' @ u @ '') - '' @ d"
      unfolding s spec_grammar_def by blast
    then have "''a](b)-c'' = t @ '']('' @ u @ '') - '' @ d" by simp
    then have "set ''a](b)-c'' = set (t @ '']('' @ u @ '') - '' @ d)" by (rule arg_cong)
    moreover have "CHR '' '' \<in> set (t @ '']('' @ u @ '') - '' @ d)" by simp
    ultimately have "CHR '' '' \<in> set ''a](b)-c''" by (simp only:)
    then show False by simp
  qed
qed

text \<open>
  Claim C1, amended. \<^verbatim>\<open>parse_list_items\<close> returns entries exactly when the trimmed text of
  every assembled item starts with \<^verbatim>\<open>* [TITLE](URL)\<close>, with a non-empty title without
  \<^verbatim>\<open>]\<close> and a non-empty URL without \<^verbatim>\<open>)\<close>, followed by white space or none, a hyphen, white
  space or none, and at least one more character that is not a newline. Every trimmed
  item with the separator of one space, a hyphen and one space is of this form. When
  some item is not of this form, the call fails with the \<^verbatim>\<open>RuntimeError\<close> whose message
  ends with the raw text of the first such item, and no entries are returned.
\<close>

theorem parse_list_items_grammar:
  "((\<exists>es. parse_list_items lines = Inr es) \<longleftrightarrow>
      list_all (\<lambda>b. item_grammar (strip b)) (group_items lines)) \<and>
   (spec_grammar (strip b) \<longrightarrow> item_grammar (strip b)) \<and>
   (group_items lines = pre @ b # post \<and> list_all (\<lambda>x. item_grammar (strip x)) pre \<and>
      \<not> item_grammar (strip b) \<longrightarrow>
      parse_list_items lines = Inl (RuntimeError (''Could not parse list item: '' @ b)))"
proof (intro conjI impI)
  show "(\<exists>es. parse_list_items lines = Inr es) \<longleftrightarrow>
      list_all (\<lambda>b. item_grammar (strip b)) (group_items lines)"
    unfolding parse_list_items_group by (rule parse_items_Inr_iff)
next
  assume "spec_grammar (strip b)"
  then show "item_grammar (strip b)" by (rule spec_grammar_strip)
next
  assume a: "group_items lines = pre @ b # post \<and>
    list_all (\<lambda>x. item_grammar (strip x)) pre \<and> \<not> item_grammar (strip b)"
  then have "parse_items (group_items lines) =
      Inl (RuntimeError (''Could not parse list item: '' @ b))"
    using parse_items_first_fail [of pre b post] by simp
  then show "parse_list_items lines = Inl (RuntimeError (''Could not parse list item: '' @ b))"
    by (simp only: parse_list_items_group)
qed

theorem parse_list_items_grammar_witness:
  "parse_list_items [''* [a](b)-c'', ''* broken''] =
     Inl (RuntimeError (''Could not parse list item: '' @ ''* broken'')) \<and>
   item_grammar (strip ''* [x](y) - z'')"
proof
  have g: "group_items [''* [a](b)-c'', ''* broken''] = [''* [a](b)-c''] @ ''* broken'' # []"
    by code_simp
  have p1: "pattern_match (strip ''* [a](b)-c'') \<noteq> None" by code_simp
  have p2: "pattern_match (strip ''* broken'') = None" by code_simp
  have i1: "item_grammar (strip ''* [a](b)-c'')"
    using p1 by (simp only: pattern_match_None_iff not_not)
  have i2: "\<not> item_grammar (strip ''* broken'')"
    using p2 by (rule pattern_match_None_iff [THEN iffD1])
  have l: "list_all (\<lambda>x. item_grammar (strip x)) [''* [a](b)-c'']"
    using i1 by simp
  show "parse_list_items [''* [a](b)-c'', ''* broken''] =
      Inl (RuntimeError (''Could not parse list item: '' @ ''* broken''))"
    by (rule parse_list_items_grammar [where pre = "[''* [a](b)-c'']" and post = "[]",
          THEN conjunct2, THEN conjunct2, THEN mp])
       (intro conjI g l i2)
next
  have s: "strip ''* [x](y) - z'' = ''* ['' @ ''x'' @ '']('' @ ''y'' @ '') - '' @ ''z''"
    by code_simp
  have sg: "spec_grammar (strip ''* [x](y) - z'')"
    unfolding spec_grammar_def
    by (rule exI [where x = "''x''"], rule exI [where x = "''y''"],
        rule exI [where x = "''z''"]) (simp add: s)
  show "item_grammar (strip ''* [x](y) - z'')"
    by (rule parse_list_items_grammar [where lines = "[]" and pre = "[]" and post = "[]",
          THEN conjunct2, THEN conjunct1, THEN mp]) (rule sg)
qed

text \<open>
  Claim C2, as stated: a line starts an item when its trimmed text begins with the
  bullet marker, only non-empty lines are joined to the item, and an empty line is not
  joined. The program joins the empty line: after it the description \<^verbatim>\<open>c\<close> continues
  with two spaces before \<^verbatim>\<open>d\<close>, where the grouping of the claim ends the item at \<^verbatim>\<open>c\<close>
  (and gives one space when the empty line is skipped instead).
\<close>

theorem parse_list_items_empty_line_counterexample:
  "parse_list_items [''* [a](b) - c'', '''', ''d''] = Inr [(''a'', ''b'', ''c  d'')] \<and>
   parse_items (spec_group_items [''* [a](b) - c'', '''', ''d'']) = Inr [(''a'', ''b'', ''c'')] \<and>
   parse_list_items [''* [a](b) - c'', '''', ''d'']
     \<noteq> parse_items (spec_group_items [''* [a](b) - c'', '''', ''d''])"
proof -
  have a: "parse_list_items [''* [a](b) - c'', '''', ''d''] = Inr [(''a'', ''b'', ''c  d'')]"
    by code_simp
  have b: "parse_items (spec_group_items [''* [a](b) - c'', '''', ''d''])
      = Inr [(''a'', ''b'', ''c'')]"
    by code_simp
  have "parse_list_items [''* [a](b) - c'', '''', ''d'']
     \<noteq> parse_items (spec_group_items [''* [a](b) - c'', '''', ''d''])"
    unfolding a b by simp
  with a b show ?thesis by (intro conjI)
qed

text \<open>
  Claim C2, amended. \<^verbatim>\<open>parse_list_items\<close> matches, in order, the items that the lines are
  grouped into. A line starts an item when its text without leading white space begins
  with the bullet marker; lines before the first such line belong to no item. The text
  of an item is its bullet line, trimmed, followed for every line up to the next bullet
  line (empty and blank lines too) by one space and that line, trimmed. So a bullet
  line and an indented continuation line are one item before matching, and an empty
  line adds one space to the item.
\<close>

theorem parse_list_items_groups:
  "parse_list_items lines = parse_items (group_items lines) \<and>
   (list_all (\<lambda>l. \<not> is_bullet l) pre \<longrightarrow> group_items (pre @ rest) = group_items rest) \<and>
   (is_bullet b \<and> list_all (\<lambda>c. \<not> is_bullet c) cs \<and>
      (case rest of [] \<Rightarrow> True | r # rs \<Rightarrow> is_bullet r) \<longrightarrow>
      group_items (b # cs @ rest) =
        (strip b @ concat (map (\<lambda>c. '' '' @ strip c) cs)) # group_items rest)"
proof (intro conjI impI)
  show "parse_list_items lines = parse_items (group_items lines)"
    by (rule parse_list_items_group)
next
  assume "list_all (\<lambda>l. \<not> is_bullet l) pre"
  then show "group_items (pre @ rest) = group_items rest" by (rule group_items_skip)
next
  assume "is_bullet b \<and> list_all (\<lambda>c. \<not> is_bullet c) cs \<and>
      (case rest of [] \<Rightarrow> True | r # rs \<Rightarrow> is_bullet r)"
  then show "group_items (b # cs @ rest) =
        (strip b @ concat (map (\<lambda>c. '' '' @ strip c) cs)) # group_items rest"
    using group_items_block [of b cs rest] by simp
qed

theorem parse_list_items_groups_witness:
  "group_items (''  * [Foo](http://a.com) -'' # [''    does foo'', ''''] @ [''* [b](c) - d'']) =
     (strip ''  * [Foo](http://a.com) -''
        @ concat (map (\<lambda>c. '' '' @ strip c) [''    does foo'', '''']))
     # group_items [''* [b](c) - d''] \<and>
   group_items ([''intro'', ''''] @ [''* [b](c) - d'']) = group_items [''* [b](c) - d''] \<and>
   parse_list_items [''intro'', ''  * [Foo](http://a.com) -'', ''    does foo'']
     = Inr [(''Foo'', ''http://a.com'', ''does foo'')]"
proof (intro conjI)
  have b: "is_bullet ''  * [Foo](http://a.com) -''" by code_simp
  have cs: "list_all (\<lambda>c. \<not> is_bullet c) [''    does foo'', '''']" by code_simp
  have r: "case [''* [b](c) - d''] of [] \<Rightarrow> True | r # rs \<Rightarrow> is_bullet r" by code_simp
  show "group_items (''  * [Foo](http://a.com) -'' # [''    does foo'', ''''] @ [''* [b](c) - d'']) =
     (strip ''  * [Foo](http://a.com) -''
        @ concat (map (\<lambda>c. '' '' @ strip c) [''    does foo'', '''']))
     # group_items [''* [b](c) - d'']"
    by (rule parse_list_items_groups [where lines = "[]" and pre = "[]",
          THEN conjunct2, THEN conjunct2, THEN mp]) (intro conjI b cs r)
next
  have p: "list_all (\<lambda>l. \<not> is_bullet l) [''intro'', '''']" by code_simp
  show "group_items ([''intro'', ''''] @ [''* [b](c) - d'']) = group_items [''* [b](c) - d'']"
    by (rule parse_list_items_groups [where lines = "[]" and b = "[]" and cs = "[]",
          THEN conjunct2, THEN conjunct1, THEN mp]) (rule p)
next
  have "parse_items (group_items [''intro'', ''  * [Foo](http://a.com) -'', ''    does foo''])
      = Inr [(''Foo'', ''http://a.com'', ''does foo'')]"
    by code_simp
  then show "parse_list_items [''intro'', ''  * [Foo](http://a.com) -'', ''    does foo'']
     = Inr [(''Foo'', ''http://a.com'', ''does foo'')]"
    by (simp only: parse_list_items_groups [where pre = "[]" and b = "[]" and cs = "[]"
          and rest = "[]", THEN conjunct1])
qed

text \<open>
  Claim C7. When \<^verbatim>\<open>parse_list_items\<close> succeeds, its entries are the matches of the items in
  the order of the items in the input, one entry for each item: nothing is sorted,
  dropped or merged, and an item that occurs twice gives two entries. No lines give no
  entries.
\<close>

theorem parse_list_items_order:
  "(parse_list_items lines = Inr es \<longrightarrow>
      map Some es = map (\<lambda>b. pattern_match (strip b)) (group_items lines) \<and>
      length es = length (group_items lines)) \<and>
   parse_list_items [] = Inr []"
proof (intro conjI impI)
  assume "parse_list_items lines = Inr es"
  then have "parse_items (group_items lines) = Inr es"
    by (simp only: parse_list_items_group)
  then show m: "map Some es = map (\<lambda>b. pattern_match (strip b)) (group_items lines)"
    by (rule parse_items_Inr_map)
  from arg_cong [OF m, of length] show "length es = length (group_items lines)"
    by simp
next
  show "parse_list_items [] = Inr []"
    by (simp add: parse_list_items_def)
qed

theorem parse_list_items_order_witness:
  "map Some [(''b'', ''u'', ''x''), (''a'', ''v'', ''y''), (''b'', ''u'', ''x'')] =
     map (\<lambda>b. pattern_match (strip b))
       (group_items [''* [b](u) - x'', ''* [a](v) - y'', ''* [b](u) - x'']) \<and>
   length [(''b'', ''u'', ''x''), (''a'', ''v'', ''y''), (''b'', ''u'', ''x'')] =
     length (group_items [''* [b](u) - x'', ''* [a](v) - y'', ''* [b](u) - x''])"
proof -
  have p: "parse_list_items [''* [b](u) - x'', ''* [a](v) - y'', ''* [b](u) - x''] =
      Inr [(''b'', ''u'', ''x''), (''a'', ''v'', ''y''), (''b'', ''u'', ''x'')]"
    by code_simp
  show ?thesis
    by (rule parse_list_items_order [THEN conjunct1, THEN mp]) (rule p)
qed

text \<open>
  Claim C9. Every entry that \<^verbatim>\<open>parse_list_items\<close> returns has a non-empty title, a
  non-empty URL and a non-empty description, so its \<^verbatim>\<open>li\<close> line always has the
  \<^verbatim>\<open> - \<close> segment followed by the escaped description.
\<close>

theorem parse_list_items_nonempty:
  assumes "parse_list_items lines = Inr es" and "(title, url, desc) \<in> set es"
  shows "title \<noteq> [] \<and> url \<noteq> [] \<and> desc \<noteq> [] \<and>
         render_li (title, url, desc) =
           ''    <li><a href='' @ [dq] @ html_escape True url @ [dq] @ ''>''
             @ html_escape True title @ ''</a>'' @ '' - '' @ html_escape True desc @ ''</li>''"
proof -
  from assms(1) have "parse_items (group_items lines) = Inr es"
    by (simp only: parse_list_items_group)
  then have m: "map Some es = map (\<lambda>b. pattern_match (strip b)) (group_items lines)"
    by (rule parse_items_Inr_map)
  from assms(2) have "Some (title, url, desc) \<in> set (map Some es)" by simp
  then have "Some (title, url, desc) \<in> set (map (\<lambda>b. pattern_match (strip b)) (group_items lines))"
    by (simp only: m)
  then obtain b where "pattern_match (strip b) = Some (title, url, desc)" by auto
  then have ne: "title \<noteq> [] \<and> url \<noteq> [] \<and> desc \<noteq> []" by (rule pattern_match_nonempty)
  then have "render_li (title, url, desc) =
           ''    <li><a href='' @ [dq] @ html_escape True url @ [dq] @ ''>''
             @ html_escape True title @ ''</a>'' @ '' - '' @ html_escape True desc @ ''</li>''"
    by simp
  with ne show ?thesis by simp
qed

theorem parse_list_items_nonempty_witness:
  "''Foo'' \<noteq> [] \<and> ''http://a.com'' \<noteq> [] \<and> ''does foo'' \<noteq> [] \<and>
   render_li (''Foo'', ''http://a.com'', ''does foo'') =
     ''    <li><a href='' @ [dq] @ html_escape True ''http://a.com'' @ [dq] @ ''>''
       @ html_escape True ''Foo'' @ ''</a>'' @ '' - '' @ html_escape True ''does foo''
       @ ''</li>''"
proof -
  have p: "parse_list_items [''* [Foo](http://a.com) - does foo''] =
      Inr [(''Foo'', ''http://a.com'', ''does foo'')]"
    by code_simp
  have m: "(''Foo'', ''http://a.com'', ''does foo'') \<in> set [(''Foo'', ''http://a.com'', ''does foo'')]"
    by simp
  show ?thesis by (rule parse_list_items_nonempty [OF p m])
qed

text \<open>
  Claim C10, as stated: lines before the first line whose trimmed text begins with the
  bullet marker are discarded without an error. The trimmed text of the line \<^verbatim>\<open>* \<close> (a
  bullet marker and nothing after it) is \<^verbatim>\<open>*\<close>, which does not begin with the marker, yet
  the program takes the line as the start of an item and fails on it.
\<close>

theorem parse_list_items_bare_bullet_counterexample:
  "\<not> (\<exists>l \<in> set [''* '']. spec_is_bullet l) \<and>
   parse_list_items [''* ''] = Inl (RuntimeError ''Could not parse list item: *'')"
proof
  show "\<not> (\<exists>l \<in> set [''* '']. spec_is_bullet l)" by code_simp
  show "parse_list_items [''* ''] = Inl (RuntimeError ''Could not parse list item: *'')"
    by code_simp
qed

text \<open>
  Claim C10, amended. Lines before the first line whose text without leading white space
  begins with the bullet marker are discarded by \<^verbatim>\<open>parse_list_items\<close>: they cause no
  error, give no entry and do not change the result, and a section of such lines only
  gives no entries.
\<close>

theorem parse_list_items_leading_lines:
  assumes "list_all (\<lambda>l. \<not> is_bullet l) pre"
  shows "parse_list_items (pre @ rest) = parse_list_items rest \<and> parse_list_items pre = Inr []"
proof
  show "parse_list_items (pre @ rest) = parse_list_items rest"
    by (simp only: parse_list_items_group group_items_skip [OF assms])
  show "parse_list_items pre = Inr []"
    by (simp add: parse_list_items_group group_items_none [OF assms])
qed

theorem parse_list_items_leading_lines_witness:
  "parse_list_items ([''Some tools:'', '''', ''  - not a bullet''] @ [''* [a](b) - c''])
     = parse_list_items [''* [a](b) - c''] \<and>
   parse_list_items [''Some tools:'', '''', ''  - not a bullet''] = Inr []"
proof -
  have p: "list_all (\<lambda>l. \<not> is_bullet l) [''Some tools:'', '''', ''  - not a bullet'']"
    by code_simp
  show ?thesis by (rule parse_list_items_leading_lines [OF p])
qed

section \<open>Properties of \<^verbatim>\<open>main\<close>\<close>

text \<open>
  Claim C8. When \<^verbatim>\<open>extract_section\<close> or \<^verbatim>\<open>parse_list_items\<close> fails, \<^verbatim>\<open>main\<close> ends with the
  same error, unhandled, and leaves the files as they were: \<^verbatim>\<open>index.html\<close> is not written
  and nothing is printed. Whenever an error leaves \<^verbatim>\<open>main\<close> the files are unchanged and
  the exit status is 1.
\<close>

theorem main_failure_no_write:
  "(readme fs = Inr contents \<and> extract_section (splitlines contents) = Inl e \<longrightarrow>
      main fs = (Inl e, fs)) \<and>
   (readme fs = Inr contents \<and> extract_section (splitlines contents) = Inr section_lines \<and>
      parse_list_items section_lines = Inl e \<longrightarrow> main fs = (Inl e, fs)) \<and>
   (fst (main fs) = Inl e \<longrightarrow>
      snd (main fs) = fs \<and> index (snd (main fs)) = index fs \<and> exit_status (main fs) = 1)"
proof (intro conjI impI)
  assume "readme fs = Inr contents \<and> extract_section (splitlines contents) = Inl e"
  then show "main fs = (Inl e, fs)" by (simp add: main_def)
next
  assume "readme fs = Inr contents \<and> extract_section (splitlines contents) = Inr section_lines \<and>
      parse_list_items section_lines = Inl e"
  then show "main fs = (Inl e, fs)" by (simp add: main_def)
next
  assume a: "fst (main fs) = Inl e"
  then show s: "snd (main fs) = fs"
    by (auto simp: main_def split: sum.splits)
  then show "index (snd (main fs)) = index fs" by simp
  from a show "exit_status (main fs) = 1" by (simp add: exit_status_def)
qed

theorem main_failure_no_write_witness:
  "main \<lparr>readme = Inr (''# Title'' @ [nl] @ ''text'' @ [nl]), index = Some ''old'', stdout = []\<rparr>
     = (Inl (RuntimeError heading_missing),
        \<lparr>readme = Inr (''# Title'' @ [nl] @ ''text'' @ [nl]), index = Some ''old'', stdout = []\<rparr>) \<and>
   main \<lparr>readme = Inr (''## List of tools'' @ [nl] @ ''* broken'' @ [nl]), index = None,
         stdout = []\<rparr>
     = (Inl (RuntimeError ''Could not parse list item: * broken''),
        \<lparr>readme = Inr (''## List of tools'' @ [nl] @ ''* broken'' @ [nl]), index = None,
         stdout = []\<rparr>) \<and>
   exit_status (main \<lparr>readme = Inr (''## List of tools'' @ [nl] @ ''* broken'' @ [nl]),
                     index = None, stdout = []\<rparr>) = 1"
proof (intro conjI)
  have e: "extract_section (splitlines (''# Title'' @ [nl] @ ''text'' @ [nl]))
      = Inl (RuntimeError heading_missing)"
    by code_simp
  show "main \<lparr>readme = Inr (''# Title'' @ [nl] @ ''text'' @ [nl]), index = Some ''old'', stdout = []\<rparr>
     = (Inl (RuntimeError heading_missing),
        \<lparr>readme = Inr (''# Title'' @ [nl] @ ''text'' @ [nl]), index = Some ''old'', stdout = []\<rparr>)"
    by (rule main_failure_no_write [where section_lines = "[]"
          and contents = "''# Title'' @ [nl] @ ''text'' @ [nl]", THEN conjunct1, THEN mp])
       (intro conjI, simp, rule e)
next
  have x: "extract_section (splitlines (''## List of tools'' @ [nl] @ ''* broken'' @ [nl]))
      = Inr [''* broken'']"
    by code_simp
  have p: "parse_list_items [''* broken''] = Inl (RuntimeError ''Could not parse list item: * broken'')"
    by code_simp
  show m: "main \<lparr>readme = Inr (''## List of tools'' @ [nl] @ ''* broken'' @ [nl]), index = None,
         stdout = []\<rparr>
     = (Inl (RuntimeError ''Could not parse list item: * broken''),
        \<lparr>readme = Inr (''## List of tools'' @ [nl] @ ''* broken'' @ [nl]), index = None,
         stdout = []\<rparr>)"
    by (rule main_failure_no_write [where section_lines = "[''* broken'']"
          and contents = "''## List of tools'' @ [nl] @ ''* broken'' @ [nl]",
          THEN conjunct2, THEN conjunct1, THEN mp])
       (intro conjI, simp, rule x, rule p)
  have "fst (main \<lparr>readme = Inr (''## List of tools'' @ [nl] @ ''* broken'' @ [nl]),
                     index = None, stdout = []\<rparr>)
      = Inl (RuntimeError ''Could not parse list item: * broken'')"
    by (simp only: m fst_conv)
  from main_failure_no_write [THEN conjunct2, THEN conjunct2, THEN mp, OF this]
  show "exit_status (main \<lparr>readme = Inr (''## List of tools'' @ [nl] @ ''* broken'' @ [nl]),
                     index = None, stdout = []\<rparr>) = 1"
    by (rule conjunct2 [THEN conjunct2])
qed

end
